theory Spec2Isabelle
  imports Main "HOL-Library.Sublist"
begin

section \<open>Strings of the Python source\<close>

text \<open>
  A Python \<open>str\<close> is modelled as a HOL \<open>string\<close>; one \<open>char\<close> stands for one
  character of the text. \<open>isspace\<close> is \<open>str.isspace\<close> on that range, which is also the
  class \<open>\s\<close> of the \<open>re\<close> module for \<open>str\<close> patterns: tab, line feed, vertical tab,
  form feed, carriage return, the four separators 0x1C..0x1F, the space, NEL (0x85) and
  the no-break space (0xA0).
\<close>

definition nl :: char where
  "nl = CHR 0x0A"

definition isspace :: "char \<Rightarrow> bool" where
  "isspace c = (c \<in> set [CHR 0x09, CHR 0x0A, CHR 0x0B, CHR 0x0C, CHR 0x0D,
                           CHR 0x1C, CHR 0x1D, CHR 0x1E, CHR 0x1F, CHR 0x20,
                           CHR 0x85, CHR 0xA0])"

text \<open>\<open>text.strip()\<close>: leading and trailing whitespace removed.\<close>

definition strip :: "string \<Rightarrow> string" where
  "strip s = rev (dropWhile isspace (rev (dropWhile isspace s)))"

text \<open>
  \<open>sent.split()\<close>: the maximal runs of non-whitespace characters, in order; no empty
  word is produced. \<open>split_acc w s\<close> scans \<open>s\<close> with the word \<open>w\<close> read so far.
\<close>

fun split_acc :: "string \<Rightarrow> string \<Rightarrow> string list" where
  "split_acc w [] = (if w = [] then [] else [w])"
| "split_acc w (c # cs) =
     (if isspace c then (if w = [] then split_acc [] cs else w # split_acc [] cs)
      else split_acc (w @ [c]) cs)"

definition split :: "string \<Rightarrow> string list" where
  "split s = split_acc [] s"

text \<open>\<open>sep.join(xs)\<close>.\<close>

fun str_join :: "string \<Rightarrow> string list \<Rightarrow> string" where
  "str_join sep [] = []"
| "str_join sep [x] = x"
| "str_join sep (x # y # ys) = x @ sep @ str_join sep (y # ys)"

subsection \<open>Paragraph splitting: \<open>re.split(r"\n\s*\n", s)\<close>\<close>

text \<open>
  \<open>match_sep s\<close> tries the pattern \<open>\n\s*\n\<close> at the start of \<open>s\<close> and gives the text
  after the match. The first character must be a line feed; \<open>\s*\<close> is greedy, so it
  takes the whole run of whitespace that follows and gives characters back until the one
  after it is a line feed: the match ends at the last line feed of that run. The
  whitespace of the run behind that line feed is not consumed.
\<close>

definition match_sep :: "string \<Rightarrow> string option" where
  "match_sep s =
     (case s of
        [] \<Rightarrow> None
      | c # r \<Rightarrow>
          if c = nl \<and> nl \<in> set (takeWhile isspace r)
          then Some (rev (takeWhile (\<lambda>x. x \<noteq> nl) (rev (takeWhile isspace r)))
                     @ dropWhile isspace r)
          else None)"

lemma match_sep_shorter: "match_sep s = Some t \<Longrightarrow> length t < length s"
proof -
  assume m: "match_sep s = Some t"
  then obtain c r where s: "s = c # r"
    by (cases s) (auto simp: match_sep_def)
  from m s have t: "t = rev (takeWhile (\<lambda>x. x \<noteq> nl) (rev (takeWhile isspace r)))
                        @ dropWhile isspace r"
    by (auto simp: match_sep_def split: if_splits)
  have "length (takeWhile (\<lambda>x. x \<noteq> nl) (rev (takeWhile isspace r)))
          \<le> length (takeWhile isspace r)"
    using length_takeWhile_le [of "\<lambda>x. x \<noteq> nl" "rev (takeWhile isspace r)"] by simp
  moreover have "length (takeWhile isspace r) + length (dropWhile isspace r) = length r"
    by (metis length_append takeWhile_dropWhile_id)
  ultimately show ?thesis unfolding s t by simp
qed

text \<open>
  \<open>re.split\<close> scans from the left for the next match, cuts the piece before it and goes
  on behind the match; what is left at the end is the last piece (so the result always
  has at least one piece). \<open>re_split_acc cur s\<close> scans \<open>s\<close> with the piece \<open>cur\<close> read
  so far.
\<close>

function re_split_acc :: "string \<Rightarrow> string \<Rightarrow> string list" where
  "re_split_acc cur [] = [cur]"
| "re_split_acc cur (c # cs) =
     (case match_sep (c # cs) of
        Some rest \<Rightarrow> cur # re_split_acc [] rest
      | None \<Rightarrow> re_split_acc (cur @ [c]) cs)"
  by pat_completeness auto
termination
  by (relation "measure (\<lambda>(cur, s). length s)") (auto dest: match_sep_shorter)

definition re_split :: "string \<Rightarrow> string list" where
  "re_split s = re_split_acc [] s"

section \<open>The Chunk Builder: \<open>MarkdownVectorDB._chunk_text\<close>\<close>

text \<open>
  \<open>xs[-n:]\<close> for \<open>n > 0\<close>: the slice starts at \<open>max (len xs - n) 0\<close>, so a list with
  fewer than \<open>n\<close> elements is returned whole.
\<close>

definition tail_slice :: "int \<Rightarrow> 'a list \<Rightarrow> 'a list" where
  "tail_slice n xs = drop (length xs - nat n) xs"

text \<open>
  The loop state: \<open>chunks\<close>, \<open>current_chunk\<close>, \<open>current_length\<close>. \<open>chunk_size\<close> and
  \<open>overlap\<close> are Python integers, so they are \<open>int\<close> and may be zero or negative.
\<close>

type_synonym chunker = "string list \<times> string list \<times> int"

text \<open>The body of the inner loop, for the words of one sentence.\<close>

definition add_sentence :: "int \<Rightarrow> int \<Rightarrow> chunker \<Rightarrow> string list \<Rightarrow> chunker" where
  "add_sentence chunk_size overlap st words =
     (case st of (chunks, current_chunk, current_length) \<Rightarrow>
        let sent_len = int (length words) in
        if current_length + sent_len > chunk_size then
          let overlap_words = (if overlap > 0 then tail_slice overlap current_chunk else []);
              new_chunk = overlap_words @ words
          in (chunks @ [str_join '' '' current_chunk], new_chunk, int (length new_chunk))
        else (chunks, current_chunk @ words, current_length + sent_len))"

text \<open>
  The body of the outer loop, for one paragraph. \<open>sent_tokenize\<close> is NLTK's sentence
  tokenizer, a library outside the repository: it is a parameter of the model.
\<close>

definition add_paragraph ::
  "(string \<Rightarrow> string list) \<Rightarrow> int \<Rightarrow> int \<Rightarrow> chunker \<Rightarrow> string \<Rightarrow> chunker" where
  "add_paragraph sent_tokenize chunk_size overlap st para =
     foldl (\<lambda>st sent. add_sentence chunk_size overlap st (split sent)) st (sent_tokenize para)"

definition chunk_text ::
  "(string \<Rightarrow> string list) \<Rightarrow> int \<Rightarrow> int \<Rightarrow> string \<Rightarrow> string list" where
  "chunk_text sent_tokenize chunk_size overlap text =
     (case foldl (add_paragraph sent_tokenize chunk_size overlap) ([], [], 0)
             (re_split (strip text)) of
        (chunks, current_chunk, current_length) \<Rightarrow>
          if current_chunk \<noteq> [] then chunks @ [str_join '' '' current_chunk] else chunks)"

subsection \<open>The word lists behind the chunks\<close>

text \<open>
  The same loops, recording each closed chunk as its word list instead of the joined
  string. \<open>chunk_text_words\<close> below shows that the chunks of \<open>chunk_text\<close> are these word
  lists joined by a space, one for one.
\<close>

type_synonym wchunker = "string list list \<times> string list \<times> int"

definition add_sentence_words :: "int \<Rightarrow> int \<Rightarrow> wchunker \<Rightarrow> string list \<Rightarrow> wchunker" where
  "add_sentence_words chunk_size overlap st words =
     (case st of (wchunks, current_chunk, current_length) \<Rightarrow>
        let sent_len = int (length words) in
        if current_length + sent_len > chunk_size then
          let overlap_words = (if overlap > 0 then tail_slice overlap current_chunk else []);
              new_chunk = overlap_words @ words
          in (wchunks @ [current_chunk], new_chunk, int (length new_chunk))
        else (wchunks, current_chunk @ words, current_length + sent_len))"

definition add_paragraph_words ::
  "(string \<Rightarrow> string list) \<Rightarrow> int \<Rightarrow> int \<Rightarrow> wchunker \<Rightarrow> string \<Rightarrow> wchunker" where
  "add_paragraph_words sent_tokenize chunk_size overlap st para =
     foldl (\<lambda>st sent. add_sentence_words chunk_size overlap st (split sent)) st
       (sent_tokenize para)"

definition chunk_words ::
  "(string \<Rightarrow> string list) \<Rightarrow> int \<Rightarrow> int \<Rightarrow> string \<Rightarrow> string list list" where
  "chunk_words sent_tokenize chunk_size overlap text =
     (case foldl (add_paragraph_words sent_tokenize chunk_size overlap) ([], [], 0)
             (re_split (strip text)) of
        (wchunks, current_chunk, current_length) \<Rightarrow>
          if current_chunk \<noteq> [] then wchunks @ [current_chunk] else wchunks)"

text \<open>
  The sentences of a document in the order the two loops visit them, each as its word
  list.
\<close>

definition sentences :: "(string \<Rightarrow> string list) \<Rightarrow> string \<Rightarrow> string list list" where
  "sentences sent_tokenize text =
     concat (map (\<lambda>para. map split (sent_tokenize para)) (re_split (strip text)))"

text \<open>
  A segmenter for concrete evaluations: an empty paragraph has no sentence, any other
  paragraph is one sentence.
\<close>

definition whole_paragraph :: "string \<Rightarrow> string list" where
  "whole_paragraph para = (if para = [] then [] else [para])"

section \<open>Embedding, index build and query\<close>

text \<open>
  Exceptions are values. \<open>IndexError\<close>, \<open>ValueError\<close>, \<open>AssertionError\<close> and
  \<open>AttributeError\<close> are Python's built-in exceptions, raised by the interpreter, by
  NumPy and by the \<open>assert\<close> statements of the FAISS wrapper; \<open>ServiceError\<close> is whatever
  the Gemini client raises, with its message.
\<close>

datatype error = IndexError | ValueError | AssertionError | AttributeError | ServiceError string

datatype task_type = RETRIEVAL_DOCUMENT | RETRIEVAL_QUERY

text \<open>
  \<open>faiss.IndexFlatL2\<close>: its dimension \<open>d\<close> and the stored vectors in insertion order
  (\<open>ntotal\<close> is their number). The components of a vector are of any type \<open>'a\<close>.
\<close>

record 'a IndexFlatL2 =
  idx_d :: nat
  idx_xb :: "'a list list"

text \<open>
  The object: \<open>self.chunks\<close> and \<open>self.index\<close>, which is \<open>None\<close> until the index is
  built. \<open>self.client\<close> is represented by the two services the methods take as
  parameters \<open>embed_content\<close> (returning \<open>res.embeddings[0].values\<close>) and
  \<open>generate_content\<close> (returning \<open>resp.text\<close>); either may raise.
\<close>

record 'a MarkdownVectorDB =
  chunks :: "string list"
  index :: "'a IndexFlatL2 option"

text \<open>The loop of \<open>_create_index\<close>: one embedding call per chunk, in order.\<close>

fun embed_chunks ::
  "(task_type \<Rightarrow> string \<Rightarrow> error + 'a list) \<Rightarrow> string list \<Rightarrow> error + 'a list list" where
  "embed_chunks embed_content [] = Inr []"
| "embed_chunks embed_content (ch # chs) =
     (case embed_content RETRIEVAL_DOCUMENT ch of
        Inl e \<Rightarrow> Inl e
      | Inr v \<Rightarrow>
          (case embed_chunks embed_content chs of
             Inl e \<Rightarrow> Inl e
           | Inr vs \<Rightarrow> Inr (v # vs)))"

text \<open>
  \<open>np.array(embeddings).astype("float32").shape[1]\<close>: the array of an empty list has
  shape \<open>(0,)\<close>, so reading \<open>shape[1]\<close> raises \<open>IndexError\<close>; rows of different lengths
  make \<open>np.array\<close> raise \<open>ValueError\<close>; otherwise the second axis is the common length
  of the rows.
\<close>

definition shape1 :: "'a list list \<Rightarrow> error + nat" where
  "shape1 embeddings =
     (case embeddings of
        [] \<Rightarrow> Inl IndexError
      | v # vs \<Rightarrow>
          if list_all (\<lambda>u. length u = length v) vs then Inr (length v) else Inl ValueError)"

text \<open>\<open>index.add(x)\<close>: the wrapper asserts that the rows have dimension \<open>d\<close>.\<close>

definition index_add :: "'a IndexFlatL2 \<Rightarrow> 'a list list \<Rightarrow> error + 'a IndexFlatL2" where
  "index_add idx x =
     (if list_all (\<lambda>u. length u = idx_d idx) x
      then Inr (idx\<lparr>idx_xb := idx_xb idx @ x\<rparr>)
      else Inl AssertionError)"

definition create_index ::
  "(task_type \<Rightarrow> string \<Rightarrow> error + 'a list) \<Rightarrow> 'a MarkdownVectorDB
     \<Rightarrow> error + 'a MarkdownVectorDB" where
  "create_index embed_content self =
     (case embed_chunks embed_content (chunks self) of
        Inl e \<Rightarrow> Inl e
      | Inr embeddings \<Rightarrow>
          (case shape1 embeddings of
             Inl e \<Rightarrow> Inl e
           | Inr dim \<Rightarrow>
               (case index_add \<lparr>idx_d = dim, idx_xb = []\<rparr> embeddings of
                  Inl e \<Rightarrow> Inl e
                | Inr idx \<Rightarrow> Inr (self\<lparr>index := Some idx\<rparr>))))"

text \<open>
  \<open>_load_markdown\<close>, with the contents of the file given, and \<open>__init__\<close>. An exception
  in \<open>__init__\<close> leaves the caller without an object: the result is the error alone.
\<close>

definition load_markdown ::
  "(string \<Rightarrow> string list) \<Rightarrow> int \<Rightarrow> int \<Rightarrow> 'a MarkdownVectorDB \<Rightarrow> string
     \<Rightarrow> 'a MarkdownVectorDB" where
  "load_markdown sent_tokenize chunk_size overlap self contents =
     self\<lparr>chunks := chunk_text sent_tokenize chunk_size overlap contents\<rparr>"

definition init ::
  "(task_type \<Rightarrow> string \<Rightarrow> error + 'a list) \<Rightarrow> (string \<Rightarrow> string list) \<Rightarrow> int \<Rightarrow> int
     \<Rightarrow> string \<Rightarrow> error + 'a MarkdownVectorDB" where
  "init embed_content sent_tokenize chunk_size overlap contents =
     create_index embed_content
       (load_markdown sent_tokenize chunk_size overlap \<lparr>chunks = [], index = None\<rparr> contents)"

text \<open>
  The object under construction as \<open>__init__\<close> leaves it, whether it returns or raises.
  \<open>_create_index\<close> assigns \<open>self.index\<close> once, at line 71, after \<open>embeddings.shape[1]\<close>
  has been read and before \<open>index.add\<close>: an exception raised earlier leaves
  \<open>self.index = None\<close>.
\<close>

definition init_object ::
  "(task_type \<Rightarrow> string \<Rightarrow> error + 'a list) \<Rightarrow> (string \<Rightarrow> string list) \<Rightarrow> int \<Rightarrow> int
     \<Rightarrow> string \<Rightarrow> 'a MarkdownVectorDB" where
  "init_object embed_content sent_tokenize chunk_size overlap contents =
     (let self = load_markdown sent_tokenize chunk_size overlap
                   \<lparr>chunks = [], index = None\<rparr> contents
      in case embed_chunks embed_content (chunks self) of
           Inl e \<Rightarrow> self
         | Inr embeddings \<Rightarrow>
             (case shape1 embeddings of
                Inl e \<Rightarrow> self
              | Inr dim \<Rightarrow>
                  (case index_add \<lparr>idx_d = dim, idx_xb = []\<rparr> embeddings of
                     Inl e \<Rightarrow> self\<lparr>index := Some \<lparr>idx_d = dim, idx_xb = []\<rparr>\<rparr>
                   | Inr idx \<Rightarrow> self\<lparr>index := Some idx\<rparr>)))"

subsection \<open>Search\<close>

text \<open>
  Modelled from the spec: \<open>index.search(qvec, k)\<close> is FAISS library code, absent from
  the repository, which only calls it; \<open>search\<close> gives the labels \<open>I[0]\<close> of the
  single query row. The order of the labels follows section 4.4 of the specification:
  the distance from the query to every stored vector, the nearest first, ties to the
  lowest insertion index (the sort is stable on the positions in insertion order). The
  number of labels follows the library's documented contract: the wrapper asserts the
  dimension and \<open>k > 0\<close>, the result always has \<open>k\<close> labels, and when fewer than \<open>k\<close>
  vectors are stored the missing positions hold the label \<open>-1\<close>. The distance \<open>dist\<close>
  is a parameter with values in any linear order.
\<close>

definition search ::
  "('a list \<Rightarrow> 'a list \<Rightarrow> 'o::linorder) \<Rightarrow> 'a IndexFlatL2 \<Rightarrow> 'a list \<Rightarrow> int
     \<Rightarrow> error + int list" where
  "search dist idx q k =
     (if length q \<noteq> idx_d idx then Inl AssertionError
      else if k \<le> 0 then Inl AssertionError
      else Inr (map int (take (nat k)
                  (sort_key (\<lambda>i. dist q (idx_xb idx ! i)) [0..<length (idx_xb idx)]))
                @ replicate (nat k - length (idx_xb idx)) (- 1)))"

text \<open>
  \<open>xs[i]\<close> on a Python list: a negative index counts from the end, an index out of
  range raises \<open>IndexError\<close>.
\<close>

definition getitem :: "'b list \<Rightarrow> int \<Rightarrow> error + 'b" where
  "getitem xs i =
     (if 0 \<le> i \<and> i < int (length xs) then Inr (xs ! nat i)
      else if i < 0 \<and> 0 \<le> i + int (length xs) then Inr (xs ! nat (i + int (length xs)))
      else Inl IndexError)"

text \<open>The comprehension \<open>[self.chunks[idx] for idx in I[0]]\<close>.\<close>

fun gather :: "string list \<Rightarrow> int list \<Rightarrow> error + string list" where
  "gather cs [] = Inr []"
| "gather cs (i # is) =
     (case getitem cs i of
        Inl e \<Rightarrow> Inl e
      | Inr c \<Rightarrow>
          (case gather cs is of
             Inl e \<Rightarrow> Inl e
           | Inr r \<Rightarrow> Inr (c # r)))"

text \<open>The prompt: the f-string of \<open>query\<close>, with its line breaks and indentation.\<close>

definition make_prompt :: "string \<Rightarrow> string \<Rightarrow> string" where
  "make_prompt context question =
     [nl] @ ''        You are an assistant that answers questions about a real estate project.''
     @ [nl] @ ''        Rely **only** on the information provided in the brochure context below.''
     @ [nl] @ ''        If the answer is not explicitly stated in the context, reply: ''
     @ [CHR 0x22] @ ''The brochure does not provide this information.'' @ [CHR 0x22]
     @ [nl, nl] @ ''        Brochure Context:''
     @ [nl] @ ''        '' @ context
     @ [nl, nl] @ ''        Question:''
     @ [nl] @ ''        '' @ question
     @ [nl, nl] @ ''        Answer:''
     @ [nl] @ ''        ''"

text \<open>
  \<open>query\<close> returns the answer or the exception, and the object as the call leaves it.
  Calling \<open>search\<close> on \<open>None\<close> would raise \<open>AttributeError\<close>.
\<close>

definition query ::
  "(task_type \<Rightarrow> string \<Rightarrow> error + 'a list) \<Rightarrow> (string \<Rightarrow> error + string)
     \<Rightarrow> ('a list \<Rightarrow> 'a list \<Rightarrow> 'o::linorder) \<Rightarrow> 'a MarkdownVectorDB \<Rightarrow> string \<Rightarrow> int
     \<Rightarrow> (error + string) \<times> 'a MarkdownVectorDB" where
  "query embed_content generate_content dist self question top_k =
     (case embed_content RETRIEVAL_QUERY question of
        Inl e \<Rightarrow> (Inl e, self)
      | Inr qvec \<Rightarrow>
          (case index self of
             None \<Rightarrow> (Inl AttributeError, self)
           | Some idx \<Rightarrow>
               (case search dist idx qvec top_k of
                  Inl e \<Rightarrow> (Inl e, self)
                | Inr I \<Rightarrow>
                    (case gather (chunks self) I of
                       Inl e \<Rightarrow> (Inl e, self)
                     | Inr found \<Rightarrow>
                         (generate_content (make_prompt (str_join [nl] found) question), self)))))"

subsection \<open>Services and a distance for concrete evaluations\<close>

text \<open>
  An embedding service that maps a text to the one-dimensional vector of its length, a
  generation service that answers with the prompt it is given, and the squared Euclidean
  distance on integer vectors.
\<close>

definition length_embedding :: "task_type \<Rightarrow> string \<Rightarrow> error + int list" where
  "length_embedding role s = Inr [int (length s)]"

definition echo :: "string \<Rightarrow> error + string" where
  "echo prompt = Inr prompt"

definition sq_dist :: "int list \<Rightarrow> int list \<Rightarrow> int" where
  "sq_dist x y = sum_list (map2 (\<lambda>a b. (a - b) * (a - b)) x y)"

text \<open>An embedding service whose every call raises \<open>IndexError\<close>.\<close>

definition refusing_embedding :: "task_type \<Rightarrow> string \<Rightarrow> error + int list" where
  "refusing_embedding role s = Inl IndexError"

subsection \<open>The distance of the index\<close>

text \<open>
  Modelled from the spec: the distance \<open>faiss.IndexFlatL2\<close> computes is library code,
  absent from the repository. Section 4.4 of the specification gives it as the squared
  Euclidean distance between the query and a stored vector. The components are of any
  linearly ordered ring (\<open>int\<close>, \<open>rat\<close>, \<open>real\<close>), where the arithmetic is exact; the
  rounding of \<open>float32\<close> is not modelled.
\<close>

definition l2_sqr :: "'a::linordered_idom list \<Rightarrow> 'a list \<Rightarrow> 'a" where
  "l2_sqr x y = sum_list (map2 (\<lambda>a b. (a - b) * (a - b)) x y)"

text \<open>
  The order in which section 4.4 ranks two stored positions \<open>i\<close> and \<open>j\<close> for a query:
  by distance, and by insertion index where the distances are equal.
\<close>

definition ranks_before ::
  "('a list \<Rightarrow> 'a list \<Rightarrow> 'o::linorder) \<Rightarrow> 'a list \<Rightarrow> 'a list list \<Rightarrow> nat \<Rightarrow> nat \<Rightarrow> bool" where
  "ranks_before dist q xb i j =
     (dist q (xb ! i) < dist q (xb ! j) \<or> (dist q (xb ! i) = dist q (xb ! j) \<and> i < j))"

section \<open>Auxiliary notions for the proofs\<close>

text \<open>The state of the word-list loops seen as a state of the loops of the source.\<close>

definition joined :: "wchunker \<Rightarrow> chunker" where
  "joined st = (case st of (wchunks, current_chunk, current_length) \<Rightarrow>
      (map (str_join '' '') wchunks, current_chunk, current_length))"

text \<open>The last step of \<open>chunk_words\<close>: the accumulator is closed unless it is empty.\<close>

definition finish :: "wchunker \<Rightarrow> string list list" where
  "finish st = (case st of (wchunks, current_chunk, current_length) \<Rightarrow>
      if current_chunk \<noteq> [] then wchunks @ [current_chunk] else wchunks)"

text \<open>The closed chunks followed by the accumulator.\<close>

definition pending :: "wchunker \<Rightarrow> string list list" where
  "pending st = (case st of (wchunks, current_chunk, current_length) \<Rightarrow>
      wchunks @ [current_chunk])"

text \<open>The seed of a new chunk, as \<open>add_sentence\<close> computes it.\<close>

definition overlap_words :: "int \<Rightarrow> 'a list \<Rightarrow> 'a list" where
  "overlap_words overlap current_chunk =
     (if overlap > 0 then tail_slice overlap current_chunk else [])"

text \<open>
  Every non-empty sentence of \<open>S\<close> lies whole, as a contiguous block, in a closed chunk
  or in the accumulator.
\<close>

definition covered :: "string list set \<Rightarrow> wchunker \<Rightarrow> bool" where
  "covered S st = (\<forall>ws\<in>S. ws \<noteq> [] \<longrightarrow> (\<exists>c\<in>set (pending st). sublist ws c))"

section \<open>Lemmas about the loops and the string functions\<close>

lemma add_sentence_joined:
  "add_sentence cs ov (joined st) ws = joined (add_sentence_words cs ov st ws)"
  by (cases st) (simp add: joined_def add_sentence_def add_sentence_words_def Let_def)

lemma foldl_add_sentence_joined:
  "foldl (\<lambda>st sent. add_sentence cs ov st (f sent)) (joined st) xs
     = joined (foldl (\<lambda>st sent. add_sentence_words cs ov st (f sent)) st xs)"
  by (induction xs arbitrary: st) (simp_all add: add_sentence_joined)

lemma add_paragraph_joined:
  "add_paragraph tok cs ov (joined st) p = joined (add_paragraph_words tok cs ov st p)"
  by (simp add: add_paragraph_def add_paragraph_words_def foldl_add_sentence_joined)

lemma foldl_add_paragraph_joined:
  "foldl (add_paragraph tok cs ov) (joined st) ps
     = joined (foldl (add_paragraph_words tok cs ov) st ps)"
  by (induction ps arbitrary: st) (simp_all add: add_paragraph_joined)

lemma chunk_text_words:
  "chunk_text tok cs ov text = map (str_join '' '') (chunk_words tok cs ov text)"
proof -
  have j: "([], [], 0) = joined ([], [], 0)" by (simp add: joined_def)
  show ?thesis
    unfolding chunk_text_def chunk_words_def j foldl_add_paragraph_joined
    by (simp add: joined_def split: prod.splits)
qed

lemma foldl_paragraphs_flat:
  "foldl (add_paragraph_words tok cs ov) st ps
     = foldl (add_sentence_words cs ov) st (concat (map (\<lambda>para. map split (tok para)) ps))"
  by (induction ps arbitrary: st) (simp_all add: add_paragraph_words_def foldl_map)

lemma chunk_words_flat:
  "chunk_words tok cs ov text
     = finish (foldl (add_sentence_words cs ov) ([], [], 0) (sentences tok text))"
  by (simp add: chunk_words_def finish_def sentences_def foldl_paragraphs_flat)

lemma add_sentence_words_close:
  "n + int (length ws) > cs \<Longrightarrow>
   add_sentence_words cs ov (wl, cur, n) ws
     = (wl @ [cur], overlap_words ov cur @ ws, int (length (overlap_words ov cur @ ws)))"
  by (simp add: add_sentence_words_def overlap_words_def Let_def)

lemma add_sentence_words_extend:
  "\<not> n + int (length ws) > cs \<Longrightarrow>
   add_sentence_words cs ov (wl, cur, n) ws = (wl, cur @ ws, n + int (length ws))"
  by (simp add: add_sentence_words_def Let_def)

lemma pending_step:
  "pending (add_sentence_words cs ov (wl, cur, n) ws)
     = (if n + int (length ws) > cs then wl @ [cur, overlap_words ov cur @ ws]
        else wl @ [cur @ ws])"
  by (simp add: pending_def add_sentence_words_close add_sentence_words_extend)

lemma chain_step:
  assumes "successively (\<lambda>x y. prefix (overlap_words ov x) y) (pending st)"
  shows "successively (\<lambda>x y. prefix (overlap_words ov x) y)
           (pending (add_sentence_words cs ov st ws))"
proof -
  obtain wl cur n where st: "st = (wl, cur, n)" by (cases st)
  from assms have a: "successively (\<lambda>x y. prefix (overlap_words ov x) y) (wl @ [cur])"
    by (simp add: st pending_def)
  show ?thesis
  proof (cases "n + int (length ws) > cs")
    case True
    have "successively (\<lambda>x y. prefix (overlap_words ov x) y)
            ((wl @ [cur]) @ [overlap_words ov cur @ ws])"
      unfolding successively_append_iff [of _ "wl @ [cur]"] using a by simp
    with True show ?thesis by (simp add: st pending_step)
  next
    case False
    have "successively (\<lambda>x y. prefix (overlap_words ov x) y) (wl @ [cur @ ws])"
      using a by (cases "wl = []") (auto simp: successively_append_iff)
    with False show ?thesis by (simp add: st pending_step)
  qed
qed

lemma chain_foldl:
  "successively (\<lambda>x y. prefix (overlap_words ov x) y) (pending st) \<Longrightarrow>
   successively (\<lambda>x y. prefix (overlap_words ov x) y)
     (pending (foldl (add_sentence_words cs ov) st sents))"
  by (induction sents arbitrary: st) (simp_all add: chain_step)

lemma finish_pending: "finish st = (if fst (snd st) \<noteq> [] then pending st else butlast (pending st))"
  by (cases st) (simp add: finish_def pending_def)

lemma successively_butlast: "successively P xs \<Longrightarrow> successively P (butlast xs)"
proof (cases "xs = []")
  case False
  assume "successively P xs"
  then have "successively P (butlast xs @ [last xs])" using False by simp
  then show ?thesis unfolding successively_append_iff by simp
qed simp

lemma chunk_words_chain:
  "successively (\<lambda>x y. prefix (overlap_words ov x) y) (chunk_words tok cs ov text)"
proof -
  have "successively (\<lambda>x y. prefix (overlap_words ov x) y)
          (pending (foldl (add_sentence_words cs ov) ([], [], 0) (sentences tok text)))"
    by (rule chain_foldl) (simp add: pending_def)
  then show ?thesis
    by (simp add: chunk_words_flat finish_pending successively_butlast)
qed

lemma overlap_words_take:
  "prefix (overlap_words ov x) y \<Longrightarrow> 0 < ov \<Longrightarrow>
     take (min (nat ov) (length x)) y = drop (length x - nat ov) x"
proof -
  assume p: "prefix (overlap_words ov x) y" and "0 < ov"
  then obtain r where y: "y = drop (length x - nat ov) x @ r"
    by (auto simp: overlap_words_def tail_slice_def prefix_def)
  have "length (drop (length x - nat ov) x) = min (nat ov) (length x)" by auto
  then show ?thesis unfolding y by simp
qed

lemma covered_step:
  assumes "covered S st"
  shows "covered (insert ws S) (add_sentence_words cs ov st ws)"
proof -
  obtain wl cur n where st: "st = (wl, cur, n)" by (cases st)
  have old: "\<exists>c\<in>set (pending (add_sentence_words cs ov st ws)). sublist v c"
    if "v \<in> S" "v \<noteq> []" for v
  proof -
    from assms that obtain c where c: "c \<in> set (wl @ [cur])" "sublist v c"
      by (auto simp: covered_def st pending_def)
    show ?thesis
    proof (cases "c = cur \<and> \<not> n + int (length ws) > cs")
      case True
      with c obtain ps ss where "cur = ps @ v @ ss" by (auto simp: sublist_def)
      then have "cur @ ws = ps @ v @ (ss @ ws)" by simp
      then have "sublist v (cur @ ws)" unfolding sublist_def by blast
      with True show ?thesis by (simp add: st pending_step)
    next
      case False
      with c show ?thesis by (auto simp: st pending_step)
    qed
  qed
  have new: "\<exists>c\<in>set (pending (add_sentence_words cs ov st ws)). sublist ws c"
    by (simp add: st pending_step)
  show ?thesis unfolding covered_def using old new by blast
qed

lemma covered_foldl:
  "covered S st \<Longrightarrow> covered (S \<union> set sents) (foldl (add_sentence_words cs ov) st sents)"
proof (induction sents arbitrary: S st)
  case Nil
  then show ?case by simp
next
  case (Cons w sents)
  from Cons.IH [OF covered_step [OF Cons.prems, of w cs ov]]
  show ?case by simp
qed

lemma finish_keeps: "c \<in> set (pending st) \<Longrightarrow> c \<noteq> [] \<Longrightarrow> c \<in> set (finish st)"
  by (cases st) (auto simp: pending_def finish_def)

lemma sentence_in_chunk_words:
  assumes "ws \<in> set (sentences tok text)" and "ws \<noteq> []"
  shows "\<exists>c\<in>set (chunk_words tok cs ov text). sublist ws c"
proof -
  have "covered ({} \<union> set (sentences tok text))
          (foldl (add_sentence_words cs ov) ([], [], 0) (sentences tok text))"
    by (rule covered_foldl) (simp add: covered_def)
  with assms obtain c
    where c: "c \<in> set (pending (foldl (add_sentence_words cs ov) ([], [], 0) (sentences tok text)))"
             "sublist ws c"
    by (auto simp: covered_def)
  from c(2) assms(2) have "c \<noteq> []" by auto
  with c show ?thesis unfolding chunk_words_flat by (blast intro: finish_keeps)
qed

lemma split_acc_Nil_iff: "split_acc w s = [] \<longleftrightarrow> w = [] \<and> (\<forall>c\<in>set s. isspace c)"
  by (induction s arbitrary: w) auto

lemma split_Nil_iff: "split s = [] \<longleftrightarrow> (\<forall>c\<in>set s. isspace c)"
  by (simp add: split_def split_acc_Nil_iff)

lemma dropWhile_keeps: "c \<in> set s \<Longrightarrow> \<not> P c \<Longrightarrow> c \<in> set (dropWhile P s)"
  by (induction s) auto

lemma strip_keeps: "c \<in> set s \<Longrightarrow> \<not> isspace c \<Longrightarrow> c \<in> set (strip s)"
  by (simp add: strip_def dropWhile_keeps)

lemma strip_blank: "\<forall>c\<in>set s. isspace c \<Longrightarrow> strip s = []"
proof -
  assume "\<forall>c\<in>set s. isspace c"
  then show ?thesis by (auto simp: strip_def dest: set_dropWhileD)
qed

lemma match_sep_keeps:
  assumes "match_sep s = Some t" "c \<in> set s" "\<not> isspace c"
  shows "c \<in> set t"
proof -
  from assms(1) obtain h r where s: "s = h # r" "h = nl"
    and t: "t = rev (takeWhile (\<lambda>x. x \<noteq> nl) (rev (takeWhile isspace r))) @ dropWhile isspace r"
    by (cases s) (auto simp: match_sep_def split: if_splits)
  have "isspace nl" by (simp add: isspace_def nl_def)
  with assms s have "c \<in> set r" by auto
  then have "c \<in> set (dropWhile isspace r)" using assms(3) by (rule dropWhile_keeps)
  then show ?thesis by (simp add: t)
qed

lemma re_split_acc_keeps:
  "c \<in> set cur \<union> set s \<Longrightarrow> \<not> isspace c \<Longrightarrow> \<exists>p\<in>set (re_split_acc cur s). c \<in> set p"
proof (induction cur s rule: re_split_acc.induct)
  case (1 cur)
  then show ?case by simp
next
  case (2 cur h cs)
  show ?case
  proof (cases "match_sep (h # cs)")
    case None
    with 2 show ?thesis by auto
  next
    case (Some rest)
    show ?thesis
    proof (cases "c \<in> set cur")
      case True
      with Some show ?thesis by simp
    next
      case False
      with 2(3) have "c \<in> set (h # cs)" by simp
      from match_sep_keeps [OF Some this 2(4)] have "c \<in> set [] \<union> set rest" by simp
      from 2(2) [OF Some this 2(4)] Some show ?thesis by auto
    qed
  qed
qed

lemma re_split_keeps: "c \<in> set s \<Longrightarrow> \<not> isspace c \<Longrightarrow> \<exists>p\<in>set (re_split s). c \<in> set p"
  unfolding re_split_def by (rule re_split_acc_keeps) simp

lemma sentences_blank:
  assumes "tok [] = []" and "\<forall>c\<in>set text. isspace c"
  shows "sentences tok text = []"
  using assms by (simp add: sentences_def strip_blank re_split_def)

lemma sentences_word:
  assumes tok: "\<And>p. split p \<noteq> [] \<Longrightarrow> \<exists>s\<in>set (tok p). split s \<noteq> []"
    and "split text \<noteq> []"
  shows "\<exists>ws\<in>set (sentences tok text). ws \<noteq> []"
proof -
  from assms(2) obtain c where c: "c \<in> set text" "\<not> isspace c"
    by (auto simp: split_Nil_iff)
  from re_split_keeps [OF strip_keeps [OF c] c(2)]
  obtain p where p: "p \<in> set (re_split (strip text))" "c \<in> set p" by blast
  with c(2) have "split p \<noteq> []" by (auto simp: split_Nil_iff)
  from tok [of p, OF this] obtain s where "s \<in> set (tok p)" "split s \<noteq> []" by blast
  with p(1) show ?thesis by (auto simp: sentences_def)
qed

lemma foldl_extends:
  "\<exists>more. fst (foldl (add_sentence_words cs ov) (wl, cur, n) sents) = wl @ more"
proof (induction sents arbitrary: wl cur n)
  case Nil
  show ?case by simp
next
  case (Cons w sents)
  show ?case
  proof (cases "n + int (length w) > cs")
    case True
    from Cons.IH [of "wl @ [cur]" "overlap_words ov cur @ w"
        "int (length (overlap_words ov cur @ w))"]
    show ?thesis using True by (auto simp: add_sentence_words_close)
  next
    case False
    from Cons.IH [of wl "cur @ w" "n + int (length w)"]
    show ?thesis using False by (simp add: add_sentence_words_extend)
  qed
qed

lemma finish_foldl_extends:
  "\<exists>more. finish (foldl (add_sentence_words cs ov) (wl, cur, n) sents) = wl @ more"
proof -
  obtain more where m: "fst (foldl (add_sentence_words cs ov) (wl, cur, n) sents) = wl @ more"
    using foldl_extends by blast
  obtain a b c where f: "foldl (add_sentence_words cs ov) (wl, cur, n) sents = (a, b, c)"
    by (cases "foldl (add_sentence_words cs ov) (wl, cur, n) sents")
  with m have "a = wl @ more" by simp
  then show ?thesis by (simp add: f finish_def)
qed

lemma embed_chunks_length:
  "embed_chunks embed_content chs = Inr vs \<Longrightarrow> length vs = length chs"
  by (induction chs arbitrary: vs) (auto split: sum.splits)

lemma shape1_nonempty: "shape1 embeddings = Inr dim \<Longrightarrow> embeddings \<noteq> []"
  by (auto simp: shape1_def)

lemma init_built:
  assumes "init embed_content sent_tokenize chunk_size overlap contents = Inr self"
  shows "chunks self = chunk_text sent_tokenize chunk_size overlap contents
       \<and> chunks self \<noteq> []
       \<and> (\<exists>idx. index self = Some idx \<and> length (idx_xb idx) = length (chunks self))"
proof -
  let ?cs = "chunk_text sent_tokenize chunk_size overlap contents"
  from assms obtain embeddings dim idx
    where e: "embed_chunks embed_content ?cs = Inr embeddings"
      and d: "shape1 embeddings = Inr dim"
      and a: "index_add \<lparr>idx_d = dim, idx_xb = []\<rparr> embeddings = Inr idx"
      and s: "self = \<lparr>chunks = ?cs, index = Some idx\<rparr>"
    by (auto simp: init_def load_markdown_def create_index_def split: sum.splits)
  from a have "idx_xb idx = embeddings"
    by (auto simp: index_add_def split: if_splits)
  with embed_chunks_length [OF e] shape1_nonempty [OF d] s show ?thesis by auto
qed

lemma getitem_nat: "j < length xs \<Longrightarrow> getitem xs (int j) = Inr (xs ! j)"
  by (simp add: getitem_def)

lemma getitem_minus_one: "xs \<noteq> [] \<Longrightarrow> getitem xs (- 1) = Inr (last xs)"
proof -
  assume n: "xs \<noteq> []"
  then have "nat (- 1 + int (length xs)) = length xs - 1" by (cases xs) auto
  with n show ?thesis by (cases xs) (simp_all add: getitem_def last_conv_nth)
qed

lemma gather_append:
  "gather cs is = Inr a \<Longrightarrow> gather cs js = Inr b \<Longrightarrow> gather cs (is @ js) = Inr (a @ b)"
  by (induction "is" arbitrary: a) (auto split: sum.splits)

lemma gather_valid:
  "\<forall>j\<in>set js. j < length cs \<Longrightarrow> gather cs (map int js) = Inr (map (\<lambda>j. cs ! j) js)"
  by (induction js) (simp_all add: getitem_nat)

lemma gather_padding:
  "cs \<noteq> [] \<Longrightarrow> gather cs (replicate m (- 1)) = Inr (replicate m (last cs))"
  by (induction m) (simp_all add: getitem_minus_one)

lemma search_beyond_stored:
  assumes "length q = idx_d idx" and "int (length (idx_xb idx)) < k"
  shows "search dist idx q k
           = Inr (map int (sort_key (\<lambda>i. dist q (idx_xb idx ! i)) [0..<length (idx_xb idx)])
                  @ replicate (nat k - length (idx_xb idx)) (- 1))"
proof -
  from assms(2) have "0 < k" and "length (idx_xb idx) \<le> nat k" by auto
  with assms(1) show ?thesis by (simp add: search_def)
qed

lemma insort_key_ranked:
  assumes "sorted_wrt (\<lambda>i j. f i < f j \<or> (f i = f j \<and> i < j)) ys"
    and "\<forall>y\<in>set ys. (x::nat) < y"
  shows "sorted_wrt (\<lambda>i j. f i < f j \<or> (f i = f j \<and> i < j)) (insort_key f x ys)"
  using assms
proof (induction ys)
  case Nil
  then show ?case by simp
next
  case (Cons y ys)
  show ?case
  proof (cases "f x \<le> f y")
    case True
    have "f x < f z \<or> (f x = f z \<and> x < z)" if "z \<in> set (y # ys)" for z
    proof -
      from Cons.prems(1) that have "f y \<le> f z" by auto
      with True have "f x \<le> f z" by simp
      moreover from Cons.prems(2) that have "x < z" by auto
      ultimately show ?thesis by auto
    qed
    with True Cons.prems(1) show ?thesis by simp
  next
    case False
    then have "f y < f x" by simp
    moreover from Cons.prems have "sorted_wrt (\<lambda>i j. f i < f j \<or> (f i = f j \<and> i < j)) (insort_key f x ys)"
      by (intro Cons.IH) simp_all
    ultimately show ?thesis using False Cons.prems(1) by (auto simp: set_insort_key)
  qed
qed

lemma sort_key_ranked:
  "sorted_wrt (<) (xs::nat list) \<Longrightarrow>
   sorted_wrt (\<lambda>i j. f i < f j \<or> (f i = f j \<and> i < j)) (sort_key f xs)"
proof (induction xs)
  case Nil
  then show ?case by simp
next
  case (Cons x xs)
  then have "sorted_wrt (\<lambda>i j. f i < f j \<or> (f i = f j \<and> i < j)) (sort_key f xs)"
    and "\<forall>y\<in>set (sort_key f xs). x < y" by simp_all
  then show ?case by (simp add: insort_key_ranked)
qed

lemma sort_key_upt_ranked:
  "sorted_wrt (ranks_before dist q xb) (sort_key (\<lambda>i. dist q (xb ! i)) [0..<n])"
proof -
  have "sorted_wrt (<) [0..<n]" by (simp add: sorted_wrt_iff_nth_less)
  from sort_key_ranked [OF this, of "\<lambda>i. dist q (xb ! i)"]
  show ?thesis by (simp add: ranks_before_def [abs_def])
qed

lemma l2_sqr_sum:
  "length x = length y \<Longrightarrow> l2_sqr x y = (\<Sum>j<length x. (x ! j - y ! j)\<^sup>2)"
proof -
  assume l: "length x = length y"
  have "l2_sqr x y = (\<Sum>j = 0..<length (map2 (\<lambda>a b. (a - b) * (a - b)) x y).
                        map2 (\<lambda>a b. (a - b) * (a - b)) x y ! j)"
    unfolding l2_sqr_def by (rule sum_list_sum_nth)
  also have "\<dots> = (\<Sum>j = 0..<length x. (x ! j - y ! j)\<^sup>2)"
    using l by (intro sum.cong) (simp_all add: power2_eq_square)
  finally show ?thesis by (simp add: atLeast0LessThan)
qed

lemma init_object_returned:
  "init embed_content sent_tokenize chunk_size overlap contents = Inr self \<Longrightarrow>
   init_object embed_content sent_tokenize chunk_size overlap contents = self"
  by (auto simp: init_def init_object_def create_index_def Let_def split: sum.splits)

section \<open>The claims about the Chunk Builder\<close>

text \<open>
  Claim C1, as amended. When the words of a sentence added to the running count exceed
  \<open>chunk_size\<close>, the accumulated words are joined by a space and appended to the
  output, the new accumulator is a seed followed by the words of the sentence, and the
  running count is the length of the new accumulator. The seed is the suffix of the
  closed chunk of length \<open>min overlap (len closed)\<close> when \<open>overlap > 0\<close>, so it is the
  whole closed chunk when that has fewer than \<open>overlap\<close> words; it is empty when
  \<open>overlap \<le> 0\<close>.
\<close>

theorem chunk_closed_and_seeded:
  assumes "chunk_size < current_length + int (length words)"
  shows "\<exists>seed.
           add_sentence chunk_size overlap (out, current_chunk, current_length) words
             = (out @ [str_join '' '' current_chunk], seed @ words, int (length (seed @ words)))
         \<and> suffix seed current_chunk
         \<and> length seed = (if 0 < overlap then min (nat overlap) (length current_chunk) else 0)"
proof -
  let ?seed = "overlap_words overlap current_chunk"
  have "add_sentence chunk_size overlap (out, current_chunk, current_length) words
          = (out @ [str_join '' '' current_chunk], ?seed @ words, int (length (?seed @ words)))"
    using assms by (simp add: add_sentence_def overlap_words_def Let_def)
  moreover have "suffix ?seed current_chunk"
    by (simp add: overlap_words_def tail_slice_def suffix_drop)
  moreover have "length ?seed
                   = (if 0 < overlap then min (nat overlap) (length current_chunk) else 0)"
    by (auto simp: overlap_words_def tail_slice_def)
  ultimately show ?thesis by blast
qed

theorem chunk_closed_and_seeded_witness:
  "\<exists>seed.
     add_sentence 5 3 ([], [''a'', ''b''], 2) [''c'', ''d'', ''e'', ''f'']
       = ([''a b''], seed @ [''c'', ''d'', ''e'', ''f''],
          int (length (seed @ [''c'', ''d'', ''e'', ''f''])))
   \<and> suffix seed [''a'', ''b'']
   \<and> length seed = 2"
  using chunk_closed_and_seeded [of 5 2 "[''c'', ''d'', ''e'', ''f'']" 3 "[]" "[''a'', ''b'']"]
  by (simp add: numeral_2_eq_2)

text \<open>
  Claim C1 as stated fails where the closed chunk has fewer than \<open>overlap\<close> words. With
  \<open>chunk_size = 5\<close> and \<open>overlap = 3\<close>, the document of the two sentences \<open>a b\<close> and
  \<open>c d e f\<close> closes the chunk \<open>a b\<close> of two words; the claim seeds the next chunk with
  the empty list, the code with \<open>a b\<close>.
\<close>

theorem short_chunk_seed_counterexample:
  "(5::int) < 2 + int (length [''c'', ''d'', ''e'', ''f''])
   \<and> int (length [''a'', ''b'']) < 3
   \<and> add_sentence 5 3 ([], [''a'', ''b''], 2) [''c'', ''d'', ''e'', ''f'']
       = ([''a b''], [''a'', ''b'', ''c'', ''d'', ''e'', ''f''], 6)
   \<and> add_sentence 5 3 ([], [''a'', ''b''], 2) [''c'', ''d'', ''e'', ''f'']
       \<noteq> ([''a b''], [] @ [''c'', ''d'', ''e'', ''f''], 4)
   \<and> chunk_text whole_paragraph 5 3 ''a b\<newline>\<newline>c d e f'' = [''a b'', ''a b c d e f'']"
  by (simp add: add_sentence_def tail_slice_def chunk_text_def add_paragraph_def
      whole_paragraph_def re_split_def strip_def match_sep_def split_def isspace_def nl_def)

text \<open>
  Claim C2, as amended. For \<open>overlap > 0\<close>, every chunk but the first begins with the
  trailing \<open>min overlap m\<close> words of the word list of the chunk before it, \<open>m\<close> being
  the length of that list: with \<open>xs[-overlap:]\<close> of the previous word list, which is
  its last \<open>overlap\<close> words when it has that many and the whole of it otherwise. The
  chunks are these word lists joined (\<open>chunk_text_words\<close>).
\<close>

theorem overlap_between_chunks:
  assumes "0 < overlap"
    and "Suc i < length (chunk_words sent_tokenize chunk_size overlap text)"
  shows "take (min (nat overlap) (length (chunk_words sent_tokenize chunk_size overlap text ! i)))
              (chunk_words sent_tokenize chunk_size overlap text ! Suc i)
         = tail_slice overlap (chunk_words sent_tokenize chunk_size overlap text ! i)"
  unfolding tail_slice_def
  using successively_nth [OF chunk_words_chain assms(2)] assms(1)
  by (rule overlap_words_take)

theorem overlap_between_chunks_witness:
  "(0::int) < 1
   \<and> Suc 1 < length (chunk_words whole_paragraph 2 1 ''a b c\<newline>\<newline>d'')
   \<and> take (min (nat 1) (length (chunk_words whole_paragraph 2 1 ''a b c\<newline>\<newline>d'' ! 1)))
        (chunk_words whole_paragraph 2 1 ''a b c\<newline>\<newline>d'' ! Suc 1) = [''c'']
   \<and> tail_slice 1 (chunk_words whole_paragraph 2 1 ''a b c\<newline>\<newline>d'' ! 1) = [''c'']"
proof -
  have v: "chunk_words whole_paragraph 2 1 ''a b c\<newline>\<newline>d''
             = [[], [''a'', ''b'', ''c''], [''c'', ''d'']]"
    by (simp add: add_sentence_words_def tail_slice_def chunk_words_def
        add_paragraph_words_def whole_paragraph_def re_split_def strip_def match_sep_def
        split_def isspace_def nl_def)
  have l: "Suc 1 < length (chunk_words whole_paragraph 2 1 ''a b c\<newline>\<newline>d'')"
    by (simp add: v)
  from overlap_between_chunks [of 1 1 whole_paragraph 2 "''a b c\<newline>\<newline>d''", OF _ l]
  show ?thesis by (simp add: v tail_slice_def)
qed

text \<open>
  Claim C2 as stated fails where the previous chunk has fewer than \<open>overlap\<close> words.
  With \<open>chunk_size = 2\<close> and \<open>overlap = 1\<close>, the document of the sentences \<open>a b c\<close>
  and \<open>d\<close> gives the word lists \<open>[]\<close>, \<open>a b c\<close>, \<open>c d\<close>: the second chunk's leading
  word is \<open>a\<close>, and the first chunk has no trailing word.
\<close>

theorem overlap_counterexample:
  "chunk_words whole_paragraph 2 1 ''a b c\<newline>\<newline>d'' = [[], [''a'', ''b'', ''c''], [''c'', ''d'']]
   \<and> chunk_text whole_paragraph 2 1 ''a b c\<newline>\<newline>d'' = ['''', ''a b c'', ''c d'']
   \<and> take (nat 1) (chunk_words whole_paragraph 2 1 ''a b c\<newline>\<newline>d'' ! 1) = [''a'']
   \<and> tail_slice 1 (chunk_words whole_paragraph 2 1 ''a b c\<newline>\<newline>d'' ! 0) = []
   \<and> take (nat 1) (chunk_words whole_paragraph 2 1 ''a b c\<newline>\<newline>d'' ! 1)
       \<noteq> tail_slice 1 (chunk_words whole_paragraph 2 1 ''a b c\<newline>\<newline>d'' ! 0)"
proof -
  have v: "chunk_words whole_paragraph 2 1 ''a b c\<newline>\<newline>d''
             = [[], [''a'', ''b'', ''c''], [''c'', ''d'']]"
    by (simp add: add_sentence_words_def tail_slice_def chunk_words_def
        add_paragraph_words_def whole_paragraph_def re_split_def strip_def match_sep_def
        split_def isspace_def nl_def)
  show ?thesis by (simp add: v chunk_text_words tail_slice_def)
qed

text \<open>
  Claim C6. No sentence is split: the word list of every sentence of the document that
  has a word lies whole, as one contiguous block, in the word list of a single chunk,
  whose joined string is a chunk of \<open>chunk_text\<close>. In particular a sentence with more
  than \<open>chunk_size\<close> words is in a chunk of more than \<open>chunk_size\<close> words: the size is
  tested before the sentence is added and never afterwards.
\<close>

theorem sentence_never_split:
  assumes "ws \<in> set (sentences sent_tokenize text)" and "ws \<noteq> []"
  shows "\<exists>c\<in>set (chunk_words sent_tokenize chunk_size overlap text).
           sublist ws c
         \<and> str_join '' '' c \<in> set (chunk_text sent_tokenize chunk_size overlap text)
         \<and> (chunk_size < int (length ws) \<longrightarrow> chunk_size < int (length c))"
proof -
  from sentence_in_chunk_words [OF assms]
  obtain c where c: "c \<in> set (chunk_words sent_tokenize chunk_size overlap text)" "sublist ws c"
    by blast
  from c(2) have "length ws \<le> length c" by (auto simp: sublist_def)
  moreover from c(1) have "str_join '' '' c \<in> set (chunk_text sent_tokenize chunk_size overlap text)"
    by (simp add: chunk_text_words)
  ultimately show ?thesis using c by auto
qed

theorem sentence_never_split_witness:
  "[''a'', ''b'', ''c''] \<in> set (sentences whole_paragraph ''d\<newline>\<newline>a b c'')
   \<and> (2::int) < int (length [''a'', ''b'', ''c''])
   \<and> chunk_words whole_paragraph 2 0 ''d\<newline>\<newline>a b c'' = [[''d''], [''a'', ''b'', ''c'']]
   \<and> (\<exists>c. c \<in> set (chunk_words whole_paragraph 2 0 ''d\<newline>\<newline>a b c'')
          \<and> sublist [''a'', ''b'', ''c''] c
          \<and> str_join '' '' c \<in> set (chunk_text whole_paragraph 2 0 ''d\<newline>\<newline>a b c'')
          \<and> 2 < int (length c))"
proof -
  have s: "sentences whole_paragraph ''d\<newline>\<newline>a b c'' = [[''d''], [''a'', ''b'', ''c'']]"
    by (simp add: sentences_def whole_paragraph_def re_split_def strip_def match_sep_def
        split_def isspace_def nl_def)
  have v: "chunk_words whole_paragraph 2 0 ''d\<newline>\<newline>a b c'' = [[''d''], [''a'', ''b'', ''c'']]"
    by (simp add: chunk_words_flat s finish_def add_sentence_words_def)
  have m: "[''a'', ''b'', ''c''] \<in> set (sentences whole_paragraph ''d\<newline>\<newline>a b c'')"
    by (simp add: s)
  from sentence_never_split [OF m, of 2 0]
  have "\<exists>c. c \<in> set (chunk_words whole_paragraph 2 0 ''d\<newline>\<newline>a b c'')
          \<and> sublist [''a'', ''b'', ''c''] c
          \<and> str_join '' '' c \<in> set (chunk_text whole_paragraph 2 0 ''d\<newline>\<newline>a b c'')
          \<and> 2 < int (length c)"
    by (simp add: Bex_def)
  with m v show ?thesis by simp
qed

text \<open>
  Claim C7. The segmenter is NLTK's, so the theorem holds for every \<open>sent_tokenize\<close>
  that gives no sentence for the empty paragraph and that, for a paragraph with a word,
  gives a sentence with a word. Then a document with at least one word has at least
  one chunk, and a document without a word (empty, or whitespace only) has none.
\<close>

theorem chunks_nonempty_iff_words:
  assumes "sent_tokenize [] = []"
    and "\<And>para. split para \<noteq> [] \<Longrightarrow> \<exists>sent\<in>set (sent_tokenize para). split sent \<noteq> []"
  shows "(split text \<noteq> [] \<longrightarrow> chunk_text sent_tokenize chunk_size overlap text \<noteq> [])
       \<and> ((\<forall>c\<in>set text. isspace c)
            \<longrightarrow> chunk_text sent_tokenize chunk_size overlap text = [])"
proof (intro conjI impI)
  assume "split text \<noteq> []"
  from sentences_word [of sent_tokenize "text", OF assms(2) this]
  obtain ws where ws: "ws \<in> set (sentences sent_tokenize text)" "ws \<noteq> []" by blast
  from sentence_in_chunk_words [OF this, of chunk_size overlap]
  obtain c where "c \<in> set (chunk_words sent_tokenize chunk_size overlap text)" by blast
  then have "chunk_words sent_tokenize chunk_size overlap text \<noteq> []" by auto
  then show "chunk_text sent_tokenize chunk_size overlap text \<noteq> []"
    by (simp add: chunk_text_words)
next
  assume "\<forall>c\<in>set text. isspace c"
  then have "sentences sent_tokenize text = []"
    using assms(1) by (simp add: sentences_blank)
  then show "chunk_text sent_tokenize chunk_size overlap text = []"
    by (simp add: chunk_text_words chunk_words_flat finish_def)
qed

theorem chunks_nonempty_iff_words_witness:
  "whole_paragraph [] = []
   \<and> split ''a b c'' \<noteq> []
   \<and> chunk_text whole_paragraph 800 100 ''a b c'' \<noteq> []
   \<and> chunk_text whole_paragraph 800 100 '' \<newline> '' = []
   \<and> chunk_text whole_paragraph 800 100 '''' = []"
proof -
  have e: "whole_paragraph [] = []" by (simp add: whole_paragraph_def)
  have w: "\<exists>sent\<in>set (whole_paragraph para). split sent \<noteq> []" if "split para \<noteq> []" for para
    using that by (auto simp: whole_paragraph_def split_def)
  have a: "split ''a b c'' \<noteq> []" by (simp add: split_def isspace_def)
  have b: "\<forall>c\<in>set '' \<newline> ''. isspace c" by (simp add: isspace_def)
  note t = chunks_nonempty_iff_words [of whole_paragraph, OF e w]
  from t [of "''a b c''" 800 100] a
  have 1: "chunk_text whole_paragraph 800 100 ''a b c'' \<noteq> []" by blast
  from t [of "'' \<newline> ''" 800 100] b
  have 2: "chunk_text whole_paragraph 800 100 '' \<newline> '' = []" by blast
  from t [of "''''" 800 100]
  have 3: "chunk_text whole_paragraph 800 100 '''' = []" by simp
  from e a 1 2 3 show ?thesis by blast
qed

text \<open>
  Claim C9. A sentence with more than \<open>chunk_size\<close> words arriving at an empty
  accumulator closes it: the empty string is appended to the chunks and the sentence
  becomes the new accumulator. When that sentence is the first of the document, the
  first chunk of \<open>chunk_text\<close> is the empty string.
\<close>

theorem empty_chunk_emitted:
  assumes "chunk_size < int (length words)"
  shows "add_sentence chunk_size overlap (out, [], 0) words
           = (out @ [''''], words, int (length words))
       \<and> (sentences sent_tokenize text = words # rest
            \<longrightarrow> (\<exists>more. chunk_text sent_tokenize chunk_size overlap text = '''' # more))"
proof (intro conjI impI)
  show "add_sentence chunk_size overlap (out, [], 0) words
          = (out @ [''''], words, int (length words))"
    using assms by (simp add: add_sentence_def tail_slice_def Let_def)
next
  assume s: "sentences sent_tokenize text = words # rest"
  have "add_sentence_words chunk_size overlap ([], [], 0) words
          = ([[]], words, int (length words))"
    using assms by (simp add: add_sentence_words_def tail_slice_def Let_def)
  then have "chunk_words sent_tokenize chunk_size overlap text
               = finish (foldl (add_sentence_words chunk_size overlap)
                           ([[]], words, int (length words)) rest)"
    by (simp add: chunk_words_flat s)
  moreover obtain more where
    "finish (foldl (add_sentence_words chunk_size overlap) ([[]], words, int (length words)) rest)
       = [[]] @ more"
    using finish_foldl_extends by blast
  ultimately show "\<exists>more. chunk_text sent_tokenize chunk_size overlap text = '''' # more"
    by (simp add: chunk_text_words)
qed

theorem empty_chunk_emitted_witness:
  "(2::int) < int (length [''a'', ''b'', ''c''])
   \<and> add_sentence 2 1 ([], [], 0) [''a'', ''b'', ''c''] = ([''''], [''a'', ''b'', ''c''], 3)
   \<and> sentences whole_paragraph ''a b c\<newline>\<newline>d'' = [''a'', ''b'', ''c''] # [[''d'']]
   \<and> (\<exists>more. chunk_text whole_paragraph 2 1 ''a b c\<newline>\<newline>d'' = '''' # more)
   \<and> chunk_text whole_paragraph 2 1 ''a b c\<newline>\<newline>d'' = ['''', ''a b c'', ''c d'']"
proof -
  have s: "sentences whole_paragraph ''a b c\<newline>\<newline>d'' = [''a'', ''b'', ''c''] # [[''d'']]"
    by (simp add: sentences_def whole_paragraph_def re_split_def strip_def match_sep_def
        split_def isspace_def nl_def)
  have l: "(2::int) < int (length [''a'', ''b'', ''c''])" by simp
  have v: "chunk_text whole_paragraph 2 1 ''a b c\<newline>\<newline>d'' = ['''', ''a b c'', ''c d'']"
    by (simp add: chunk_text_words chunk_words_flat s finish_def add_sentence_words_def
        tail_slice_def)
  from empty_chunk_emitted [OF l, of 1 "[]" whole_paragraph "''a b c\<newline>\<newline>d''" "[[''d'']]"] s
  have "add_sentence 2 1 ([], [], 0) [''a'', ''b'', ''c''] = ([''''], [''a'', ''b'', ''c''], 3)
        \<and> (\<exists>more. chunk_text whole_paragraph 2 1 ''a b c\<newline>\<newline>d'' = '''' # more)"
    by simp
  with l s v show ?thesis by simp
qed

section \<open>The claims about the index build and the query\<close>

text \<open>
  Claim C4, as amended. When the chunk list of the document is empty, \<open>__init__\<close>
  raises Python's \<open>IndexError\<close>, from \<open>embeddings.shape[1]\<close>. The build is atomic: the
  constructor gives the error alone, so the caller gets no object, and the object under
  construction holds an empty chunk list and no index when the exception leaves it.
\<close>

theorem empty_chunk_list_fails_build:
  assumes "chunk_text sent_tokenize chunk_size overlap contents = []"
  shows "init embed_content sent_tokenize chunk_size overlap contents = Inl IndexError
       \<and> init_object embed_content sent_tokenize chunk_size overlap contents
           = \<lparr>chunks = [], index = None\<rparr>"
  using assms
  by (simp add: init_def init_object_def load_markdown_def create_index_def shape1_def)

theorem empty_chunk_list_fails_build_witness:
  "chunk_text whole_paragraph 800 100 '''' = []
   \<and> init length_embedding whole_paragraph 800 100 ''''
       = (Inl IndexError :: error + int MarkdownVectorDB)
   \<and> init_object length_embedding whole_paragraph 800 100 ''''
       = \<lparr>chunks = [], index = None\<rparr>"
proof -
  have e: "chunk_text whole_paragraph 800 100 '''' = []"
    by (simp add: chunk_text_def whole_paragraph_def re_split_def strip_def add_paragraph_def)
  from empty_chunk_list_fails_build [OF e, of length_embedding] e show ?thesis by simp
qed

text \<open>
  Claim C4 as stated names a dedicated \<open>IndexBuildError\<close>. The build of the empty
  document raises \<open>IndexError\<close>, the interpreter's error, which does not tell an empty
  chunk list from other failures: the build of a document with one chunk ends in the
  same value when the embedding call raises \<open>IndexError\<close>.
\<close>

theorem index_build_error_counterexample:
  "chunk_text whole_paragraph 800 100 '''' = []
   \<and> init length_embedding whole_paragraph 800 100 ''''
       = (Inl IndexError :: error + int MarkdownVectorDB)
   \<and> chunk_text whole_paragraph 800 100 ''a b c'' = [''a b c'']
   \<and> init refusing_embedding whole_paragraph 800 100 ''a b c''
       = (Inl IndexError :: error + int MarkdownVectorDB)"
proof -
  have e: "chunk_text whole_paragraph 800 100 '''' = []"
    by (simp add: chunk_text_def whole_paragraph_def re_split_def strip_def add_paragraph_def)
  have c: "chunk_text whole_paragraph 800 100 ''a b c'' = [''a b c'']"
    by (simp add: add_sentence_def tail_slice_def chunk_text_def add_paragraph_def
        whole_paragraph_def re_split_def strip_def match_sep_def split_def isspace_def nl_def)
  show ?thesis
    by (simp add: e c init_def load_markdown_def create_index_def shape1_def
        length_embedding_def refusing_embedding_def)
qed

text \<open>
  Claim C8. \<open>query\<close> returns the object as it received it, whatever the services
  answer and whether or not it raises: the chunk list and the index with its stored
  vectors are the same after the call as before.
\<close>

theorem query_leaves_session_unchanged:
  "snd (query embed_content generate_content dist self question top_k) = self
   \<and> chunks (snd (query embed_content generate_content dist self question top_k)) = chunks self
   \<and> index (snd (query embed_content generate_content dist self question top_k)) = index self"
  by (simp add: query_def split: sum.splits option.splits)

text \<open>
  Claim C10. For a built object with \<open>n\<close> chunks and \<open>top_k > n\<close>, with a query vector
  of the index's dimension: the search gives \<open>top_k\<close> labels, the \<open>n\<close> stored positions
  once each and then \<open>top_k - n\<close> times \<open>-1\<close>; the comprehension raises no
  \<open>IndexError\<close> and gives \<open>top_k\<close> chunk strings, those behind position \<open>n\<close> all being
  the last chunk; and the prompt is made from these \<open>top_k\<close> lines joined by line feeds.
\<close>

theorem query_repeats_last_chunk:
  assumes "init embed_content sent_tokenize chunk_size overlap contents = Inr self"
    and "index self = Some idx"
    and "int (length (chunks self)) < top_k"
    and "embed_content RETRIEVAL_QUERY question = Inr qvec"
    and "length qvec = idx_d idx"
  shows "\<exists>I found.
           search dist idx qvec top_k = Inr I
         \<and> length I = nat top_k
         \<and> distinct (take (length (chunks self)) I)
         \<and> set (take (length (chunks self)) I) = int ` {0..<length (chunks self)}
         \<and> drop (length (chunks self)) I
             = replicate (nat top_k - length (chunks self)) (- 1)
         \<and> gather (chunks self) I = Inr found
         \<and> length found = nat top_k
         \<and> drop (length (chunks self)) found
             = replicate (nat top_k - length (chunks self)) (last (chunks self))
         \<and> query embed_content generate_content dist self question top_k
             = (generate_content (make_prompt (str_join [nl] found) question), self)"
proof -
  let ?n = "length (chunks self)"
  let ?m = "nat top_k - ?n"
  let ?js = "sort_key (\<lambda>i. dist qvec (idx_xb idx ! i)) [0..<?n]"
  let ?I = "map int ?js @ replicate ?m (- 1)"
  let ?found = "map (\<lambda>j. chunks self ! j) ?js @ replicate ?m (last (chunks self))"
  from init_built [OF assms(1)] assms(2)
  have ne: "chunks self \<noteq> []" and n: "length (idx_xb idx) = ?n" by auto
  have js: "length ?js = ?n" "set ?js = {0..<?n}" "distinct ?js" by simp_all
  have le: "?n \<le> nat top_k" using assms(3) by simp
  have s: "search dist idx qvec top_k = Inr ?I"
    using search_beyond_stored [OF assms(5), of top_k dist] assms(3) by (simp add: n)
  have "gather (chunks self) (map int ?js) = Inr (map (\<lambda>j. chunks self ! j) ?js)"
    by (rule gather_valid) (simp add: js)
  from gather_append [OF this gather_padding [OF ne, of ?m]]
  have g: "gather (chunks self) ?I = Inr ?found" .
  have q: "query embed_content generate_content dist self question top_k
             = (generate_content (make_prompt (str_join [nl] ?found) question), self)"
    by (simp add: query_def assms(2) assms(4) s g)
  have d: "distinct (take ?n ?I)"
    using js by (simp add: distinct_map)
  have t: "set (take ?n ?I) = int ` {0..<?n}"
    using js by simp
  have "length ?I = nat top_k" "length ?found = nat top_k" using js le by simp_all
  moreover have "drop ?n ?I = replicate ?m (- 1)"
    "drop ?n ?found = replicate ?m (last (chunks self))" using js by simp_all
  ultimately show ?thesis using s g q d t by blast
qed

theorem query_repeats_last_chunk_witness:
  "init length_embedding whole_paragraph 2 0 ''a b\<newline>\<newline>c d e''
     = Inr \<lparr>chunks = [''a b'', ''c d e''], index = Some \<lparr>idx_d = 1, idx_xb = [[3], [5]]\<rparr>\<rparr>
   \<and> int (length [''a b'', ''c d e'']) < 3
   \<and> length_embedding RETRIEVAL_QUERY ''abcd'' = Inr [4]
   \<and> (\<exists>I found.
         search sq_dist \<lparr>idx_d = 1, idx_xb = [[3], [5]]\<rparr> [4] 3 = Inr I
       \<and> length I = 3
       \<and> drop 2 I = [- 1]
       \<and> gather [''a b'', ''c d e''] I = Inr found
       \<and> length found = 3
       \<and> drop 2 found = [''c d e'']
       \<and> query length_embedding echo sq_dist
            \<lparr>chunks = [''a b'', ''c d e''], index = Some \<lparr>idx_d = 1, idx_xb = [[3], [5]]\<rparr>\<rparr>
            ''abcd'' 3
           = (Inr (make_prompt (str_join [nl] found) ''abcd''),
              \<lparr>chunks = [''a b'', ''c d e''], index = Some \<lparr>idx_d = 1, idx_xb = [[3], [5]]\<rparr>\<rparr>))"
proof -
  let ?self = "\<lparr>chunks = [''a b'', ''c d e''], index = Some \<lparr>idx_d = 1, idx_xb = [[3::int], [5]]\<rparr>\<rparr>"
  have c: "chunk_text whole_paragraph 2 0 ''a b\<newline>\<newline>c d e'' = [''a b'', ''c d e'']"
    by (simp add: add_sentence_def tail_slice_def chunk_text_def add_paragraph_def
        whole_paragraph_def re_split_def strip_def match_sep_def split_def isspace_def nl_def)
  have i: "init length_embedding whole_paragraph 2 0 ''a b\<newline>\<newline>c d e'' = Inr ?self"
    by (simp add: init_def load_markdown_def create_index_def c length_embedding_def
        shape1_def index_add_def)
  have e: "length_embedding RETRIEVAL_QUERY ''abcd'' = Inr [4]"
    by (simp add: length_embedding_def)
  from query_repeats_last_chunk [OF i, of "\<lparr>idx_d = 1, idx_xb = [[3], [5]]\<rparr>" 3 "''abcd''" "[4]"
      sq_dist echo] e
  have "\<exists>I found.
         search sq_dist \<lparr>idx_d = 1, idx_xb = [[3], [5]]\<rparr> [4] 3 = Inr I
       \<and> length I = 3
       \<and> drop 2 I = [- 1]
       \<and> gather [''a b'', ''c d e''] I = Inr found
       \<and> length found = 3
       \<and> drop 2 found = [''c d e'']
       \<and> query length_embedding echo sq_dist ?self ''abcd'' 3
           = (Inr (make_prompt (str_join [nl] found) ''abcd''), ?self)"
    by (simp add: echo_def numeral_3_eq_3 numeral_2_eq_2) blast
  with i e show ?thesis by simp
qed

text \<open>
  Claim C3 at its own example: an object with two chunks queried with \<open>top_k = 3\<close>.
  The search gives three labels, the third being \<open>-1\<close>, and the context has three
  lines, the last chunk twice; the claim expects two entries.
\<close>

theorem three_results_for_two_chunks:
  "init length_embedding whole_paragraph 2 0 ''a b\<newline>\<newline>c d e''
     = Inr \<lparr>chunks = [''a b'', ''c d e''], index = Some \<lparr>idx_d = 1, idx_xb = [[3], [5]]\<rparr>\<rparr>
   \<and> search sq_dist \<lparr>idx_d = 1, idx_xb = [[3], [5]]\<rparr> [4] 3 = Inr [0, 1, - 1]
   \<and> gather [''a b'', ''c d e''] [0, 1, - 1] = Inr [''a b'', ''c d e'', ''c d e'']
   \<and> fst (query length_embedding echo sq_dist
            \<lparr>chunks = [''a b'', ''c d e''], index = Some \<lparr>idx_d = 1, idx_xb = [[3], [5]]\<rparr>\<rparr>
            ''abcd'' 3)
       = Inr (make_prompt (''a b'' @ [nl] @ ''c d e'' @ [nl] @ ''c d e'') ''abcd'')"
proof -
  have c: "chunk_text whole_paragraph 2 0 ''a b\<newline>\<newline>c d e'' = [''a b'', ''c d e'']"
    by (simp add: add_sentence_def tail_slice_def chunk_text_def add_paragraph_def
        whole_paragraph_def re_split_def strip_def match_sep_def split_def isspace_def nl_def)
  have i: "init length_embedding whole_paragraph 2 0 ''a b\<newline>\<newline>c d e''
             = Inr \<lparr>chunks = [''a b'', ''c d e''],
                    index = Some \<lparr>idx_d = 1, idx_xb = [[3::int], [5]]\<rparr>\<rparr>"
    by (simp add: init_def load_markdown_def create_index_def c length_embedding_def
        shape1_def index_add_def)
  have u: "[0..<2] = [0, Suc 0]" by (simp add: numeral_2_eq_2)
  have s: "search sq_dist \<lparr>idx_d = 1, idx_xb = [[3], [5]]\<rparr> [4] 3 = Inr [0, 1, - 1]"
    by (simp add: search_def sq_dist_def u numeral_3_eq_3)
  have g: "gather [''a b'', ''c d e''] [0, 1, - 1] = Inr [''a b'', ''c d e'', ''c d e'']"
    by (simp add: getitem_def)
  have "fst (query length_embedding echo sq_dist
            \<lparr>chunks = [''a b'', ''c d e''], index = Some \<lparr>idx_d = 1, idx_xb = [[3], [5]]\<rparr>\<rparr>
            ''abcd'' 3)
       = Inr (make_prompt (''a b'' @ [nl] @ ''c d e'' @ [nl] @ ''c d e'') ''abcd'')"
    by (simp add: query_def length_embedding_def s [simplified] getitem_def echo_def)
  with i s g show ?thesis by simp
qed

text \<open>
  Claim C5, against the search and the distance modelled from the specification. For a
  query of the index's dimension and \<open>k \<ge> 1\<close>, the labels are the positions \<open>sel\<close>
  followed by the padding, where \<open>sel\<close> has \<open>min k n\<close> positions of stored vectors, in
  ascending order of their squared Euclidean distance to the query, a tie going to the
  lower insertion index; every stored position left out ranks behind every one in
  \<open>sel\<close>, so these are the \<open>k\<close> smallest; and the distance to each stored vector of
  the query's dimension is the sum of the squared differences of the components.
\<close>

theorem search_nearest_first:
  assumes "length q = idx_d idx" and "0 < k"
  shows "\<exists>sel.
           search l2_sqr idx q k
             = Inr (map int sel @ replicate (nat k - length (idx_xb idx)) (- 1))
         \<and> length sel = min (nat k) (length (idx_xb idx))
         \<and> set sel \<subseteq> {0..<length (idx_xb idx)}
         \<and> sorted (map (\<lambda>i. l2_sqr q (idx_xb idx ! i)) sel)
         \<and> sorted_wrt (ranks_before l2_sqr q (idx_xb idx)) sel
         \<and> (\<forall>i<length (idx_xb idx). i \<notin> set sel
               \<longrightarrow> (\<forall>j\<in>set sel. ranks_before l2_sqr q (idx_xb idx) j i))
         \<and> (\<forall>x\<in>set (idx_xb idx). length x = length q
               \<longrightarrow> l2_sqr q x = (\<Sum>j<length q. (q ! j - x ! j)\<^sup>2))"
proof -
  let ?n = "length (idx_xb idx)"
  let ?d = "\<lambda>i. l2_sqr q (idx_xb idx ! i)"
  let ?js = "sort_key ?d [0..<?n]"
  let ?sel = "take (nat k) ?js"
  let ?R = "ranks_before l2_sqr q (idx_xb idx)"
  have r: "sorted_wrt ?R ?js" by (rule sort_key_upt_ranked)
  have s: "search l2_sqr idx q k = Inr (map int ?sel @ replicate (nat k - ?n) (- 1))"
    using assms by (simp add: search_def take_map)
  have l: "length ?sel = min (nat k) ?n" by (simp add: min.commute)
  have sub: "set ?sel \<subseteq> {0..<?n}"
    using set_take_subset [of "nat k" ?js] by simp
  have "sorted (map ?d ?js)" by (rule sorted_sort_key)
  then have asc: "sorted (map ?d ?sel)"
    by (simp add: take_map [symmetric] sorted_wrt_take)
  have "sorted_wrt ?R (?sel @ drop (nat k) ?js)" using r by simp
  then have rk: "sorted_wrt ?R ?sel"
    and far: "\<forall>j\<in>set ?sel. \<forall>i\<in>set (drop (nat k) ?js). ?R j i"
    unfolding sorted_wrt_append by blast+
  have rest: "\<forall>j\<in>set ?sel. ?R j i" if "i < ?n" "i \<notin> set ?sel" for i
  proof -
    from that(1) have "i \<in> set (?sel @ drop (nat k) ?js)" by simp
    with that(2) have "i \<in> set (drop (nat k) ?js)" by (simp only: set_append) blast
    with far show ?thesis by blast
  qed
  have sq: "\<forall>x\<in>set (idx_xb idx). length x = length q
              \<longrightarrow> l2_sqr q x = (\<Sum>j<length q. (q ! j - x ! j)\<^sup>2)"
    by (simp add: l2_sqr_sum)
  from s l sub asc rk rest sq show ?thesis by blast
qed

theorem search_nearest_first_witness:
  "length [4::int] = idx_d \<lparr>idx_d = 1, idx_xb = [[7], [3], [5], [4], [5]]\<rparr>
   \<and> (0::int) < 3
   \<and> search l2_sqr \<lparr>idx_d = 1, idx_xb = [[7], [3], [5], [4], [5::int]]\<rparr> [4] 3 = Inr [3, 1, 2]
   \<and> (\<exists>sel.
         search l2_sqr \<lparr>idx_d = 1, idx_xb = [[7], [3], [5], [4], [5::int]]\<rparr> [4] 3 = Inr (map int sel)
       \<and> length sel = 3
       \<and> sorted (map (\<lambda>i. l2_sqr [4] ([[7], [3], [5], [4], [5::int]] ! i)) sel)
       \<and> sorted_wrt (ranks_before l2_sqr [4] [[7], [3], [5], [4], [5::int]]) sel)"
proof -
  let ?idx = "\<lparr>idx_d = 1, idx_xb = [[7], [3], [5], [4], [5::int]]\<rparr>"
  have h1: "length [4::int] = idx_d ?idx" by simp
  have h2: "(0::int) < 3" by simp
  have v: "search l2_sqr ?idx [4] 3 = Inr [3, 1, 2]"
    by code_simp
  from search_nearest_first [OF h1 h2]
  have "\<exists>sel.
         search l2_sqr ?idx [4] 3 = Inr (map int sel)
       \<and> length sel = 3
       \<and> sorted (map (\<lambda>i. l2_sqr [4] ([[7], [3], [5], [4], [5::int]] ! i)) sel)
       \<and> sorted_wrt (ranks_before l2_sqr [4] [[7], [3], [5], [4], [5::int]]) sel"
    by (simp del: One_nat_def) blast
  with h1 h2 v show ?thesis by (simp del: One_nat_def)
qed

end
